theory Spec2Isabelle
  imports Main
begin

section \<open>Errors\<close>

text \<open>
  The exceptions the Python source can raise, as values. \<open>CollectiveFailure\<close> stands for
  any failure of the message-passing layer: an \<open>MPI.Exception\<close>, buffers whose counts do not
  fit each other, or a peer that raised before it entered the collective (the round then never
  completes for the caller).
\<close>

datatype error = ZeroDivisionError | ValueError | IndexError | CollectiveFailure

section \<open>The rank grid and the shard planner: \<open>get_info\<close>\<close>

text \<open>
  \<open>get_info\<close> uses one method of the global communicator, \<open>comm.Split(color, key)\<close>.
  The communicator is an object of the MPI library, so it is a parameter of the model: a record
  holding its \<open>Split\<close> method, which returns a new communicator (of some type \<open>'g\<close>) or fails.
\<close>

record 'g world_comm =
  Split :: "int \<Rightarrow> int \<Rightarrow> error + 'g"

text \<open>
  The six values \<open>get_info\<close> returns as a tuple, by name (\<open>r_\<close> for "returned", to keep the
  source's names free for its local variables).
\<close>

record 'g grid_info =
  r_mp_idx :: int
  r_dp_idx :: int
  r_mp_comm :: 'g
  r_dp_comm :: 'g
  r_part_in_dim :: int
  r_part_out_dim :: int

text \<open>
  Python's \<open>%\<close> and \<open>//\<close> on integers are floor modulus and floor division, as \<open>mod\<close> and
  \<open>div\<close> on \<open>int\<close> are; Python raises \<open>ZeroDivisionError\<close> for a zero divisor, where HOL
  returns a value, so the model tests the divisor first. The first division of the source is
  \<open>rank % mp_size\<close>.
\<close>

definition get_info ::
  "'g world_comm \<Rightarrow> int \<Rightarrow> int \<Rightarrow> int \<Rightarrow> bool \<Rightarrow> bool \<Rightarrow> int \<Rightarrow> int \<Rightarrow> error + 'g grid_info"
where
  "get_info comm rank mp_size dp_size is_fc1 is_megatron_mp in_dim out_dim =
     (if mp_size = 0 then Inl ZeroDivisionError
      else
        let mp_idx = rank mod mp_size;
            dp_idx = rank div mp_size
        in case Split comm dp_idx rank of
             Inl e \<Rightarrow> Inl e
           | Inr mp_comm \<Rightarrow>
               (case Split comm mp_idx rank of
                  Inl e \<Rightarrow> Inl e
                | Inr dp_comm \<Rightarrow>
                    (let (part_in_dim, part_out_dim) =
                           (if is_fc1 then (in_dim, out_dim div mp_size)
                            else if is_megatron_mp then (in_dim div mp_size, out_dim)
                            else (in_dim, out_dim div mp_size))
                     in Inr \<lparr>r_mp_idx = mp_idx, r_dp_idx = dp_idx,
                              r_mp_comm = mp_comm, r_dp_comm = dp_comm,
                              r_part_in_dim = part_in_dim,
                              r_part_out_dim = part_out_dim\<rparr>)))"

section \<open>The data shard splitter: \<open>split_data\<close>\<close>

text \<open>
  Python's slice \<open>xs[start:end]\<close> for integer bounds and step 1: a negative bound counts from
  the end, and both bounds are clamped to \<open>[0, len(xs)]\<close>. It never raises.
\<close>

definition py_slice :: "'a list \<Rightarrow> int \<Rightarrow> int \<Rightarrow> 'a list" where
  "py_slice xs start stop =
     (let n = int (length xs);
          clamp = (\<lambda>i. if i < 0 then max 0 (i + n) else min i n);
          lo = clamp start;
          hi = clamp stop
      in take (nat (hi - lo)) (drop (nat lo) xs))"

text \<open>
  \<open>x_train\<close> is an array of \<open>data_num\<close> rows and \<open>y_train\<close> an array of labels; slicing an
  array along its first axis slices the list of its rows, so both are lists here.
  \<open>x_train.shape[0]\<close> is the number of rows.
\<close>

definition split_data ::
  "'x list \<Rightarrow> 'y list \<Rightarrow> int \<Rightarrow> int \<Rightarrow> int \<Rightarrow> error + ('x list \<times> 'y list)"
where
  "split_data x_train y_train mp_size dp_size rank =
     (if mp_size = 0 then Inl ZeroDivisionError
      else
        let dp_group_id = rank div mp_size;
            data_num = int (length x_train)
        in if dp_size = 0 then Inl ZeroDivisionError
           else
             let chunk_size = data_num div dp_size;
                 start_idx = dp_group_id * chunk_size;
                 end_idx = start_idx + chunk_size;
                 split_x_train = py_slice x_train start_idx end_idx;
                 split_y_train = py_slice y_train start_idx end_idx
             in Inr (split_x_train, split_y_train))"

section \<open>Arrays\<close>

text \<open>
  A two-dimensional \<open>numpy\<close> array: its shape and its elements in row-major (C) order, which
  is the order \<open>flatten()\<close> returns and the order MPI reads a contiguous buffer in. Every array
  \<open>numpy\<close> builds is \<open>well_shaped\<close>. The element type is any commutative monoid: the sums
  of the collectives are exact here, the rounding of IEEE doubles is outside the model.
\<close>

record 'a ndarray =
  nrows :: nat
  ncols :: nat
  data :: "'a list"

definition well_shaped :: "'a ndarray \<Rightarrow> bool" where
  "well_shaped A = (length (data A) = nrows A * ncols A)"

text \<open>\<open>A[r, c]\<close> and the row \<open>A[r]\<close>.\<close>

definition at :: "'a ndarray \<Rightarrow> nat \<Rightarrow> nat \<Rightarrow> 'a" where
  "at A r c = data A ! (r * ncols A + c)"

definition row :: "'a ndarray \<Rightarrow> nat \<Rightarrow> 'a list" where
  "row A r = take (ncols A) (drop (r * ncols A) (data A))"

text \<open>
  \<open>np.concatenate(arrays, axis=1)\<close>: raises \<open>ValueError\<close> for an empty sequence and when
  the arrays disagree on the number of rows; else row \<open>r\<close> of the result is the rows \<open>r\<close> of
  the arrays, one after the other in the order of the sequence. The widths need not agree.
\<close>

definition np_concatenate :: "'a ndarray list \<Rightarrow> error + 'a ndarray" where
  "np_concatenate arrays =
     (case arrays of
        [] \<Rightarrow> Inl ValueError
      | A # _ \<Rightarrow>
          if list_all (\<lambda>B. nrows B = nrows A) arrays
          then Inr \<lparr>nrows = nrows A,
                    ncols = sum_list (map ncols arrays),
                    data = concat (map (\<lambda>r. concat (map (\<lambda>B. row B r) arrays)) [0..<nrows A])\<rparr>
          else Inl ValueError)"

text \<open>The column slice \<open>A[:, st:en]\<close> for \<open>st \<le> en \<le> ncols A\<close>.\<close>

definition col_slice :: "'a ndarray \<Rightarrow> nat \<Rightarrow> nat \<Rightarrow> 'a ndarray" where
  "col_slice A st en =
     \<lparr>nrows = nrows A,
      ncols = en - st,
      data = concat (map (\<lambda>r. take (en - st) (drop st (row A r))) [0..<nrows A])\<rparr>"

text \<open>
  \<open>np.split(ary, sections, axis=1)\<close> for an integer \<open>sections\<close>: \<open>np.split\<close> evaluates
  \<open>N % sections\<close> first (\<open>ZeroDivisionError\<close> for 0) and raises \<open>ValueError\<close> for a
  remainder; \<open>np.array_split\<close> then raises \<open>ValueError\<close> for a negative number of sections,
  and else cuts the columns into \<open>sections\<close> slices of equal width, in order.
\<close>

definition np_split :: "'a ndarray \<Rightarrow> int \<Rightarrow> error + 'a ndarray list" where
  "np_split ary sections =
     (if sections = 0 then Inl ZeroDivisionError
      else if int (ncols ary) mod sections \<noteq> 0 then Inl ValueError
      else if sections < 0 then Inl ValueError
      else
        let Neach_section = ncols ary div nat sections
        in Inr (map (\<lambda>i. col_slice ary (i * Neach_section) ((i + 1) * Neach_section))
                  [0..<nat sections]))"

text \<open>Indexing a Python list by an integer: a negative index counts from the end.\<close>

definition py_index :: "'a list \<Rightarrow> int \<Rightarrow> error + 'a" where
  "py_index xs i =
     (let n = int (length xs);
          j = (if i < 0 then i + n else i)
      in if 0 \<le> j \<and> j < n then Inr (xs ! nat j) else Inl IndexError)"




section \<open>Communicators and collectives\<close>

text \<open>
  A communicator of a group, as one of its ranks sees it during one collective round: what the
  ranks below it and the ranks above it pass to the same call, in rank order. The caller's own
  rank is the number of ranks below it, and the group always has the caller in it. All ranks
  run the same program, so what a peer passes to an MPI primitive is computed from the peer's
  argument by the same lines that compute the caller's (\<open>map_comm\<close>).
\<close>

record 'x comm =
  lower :: "'x list"
  upper :: "'x list"

definition Get_rank :: "'x comm \<Rightarrow> nat" where
  "Get_rank c = length (lower c)"

definition Get_size :: "'x comm \<Rightarrow> nat" where
  "Get_size c = length (lower c) + 1 + length (upper c)"


text \<open>The view rank \<open>i\<close> has of a group whose ranks pass \<open>xs\<close>, rank \<open>i\<close> passing \<open>xs ! i\<close>.\<close>

definition view :: "'x list \<Rightarrow> nat \<Rightarrow> 'x comm" where
  "view xs i = \<lparr>lower = take i xs, upper = drop (Suc i) xs\<rparr>"

text \<open>
  Which rank a process has in the communicator \<open>get_info\<close> hands it is decided by
  \<open>MPI_Comm_split\<close>: the processes of the old communicator that pass the caller's color form
  the new group, and they are ranked by key, and by old rank among equal keys. \<open>members\<close> are
  the ranks of the old communicator, \<open>color\<close> and \<open>key\<close> what each of them passes.
\<close>

definition split_group :: "nat list \<Rightarrow> (nat \<Rightarrow> int) \<Rightarrow> nat \<Rightarrow> nat list" where
  "split_group members color me = [m \<leftarrow> members. color m = color me]"

definition split_rank :: "nat list \<Rightarrow> (nat \<Rightarrow> int) \<Rightarrow> (nat \<Rightarrow> int) \<Rightarrow> nat \<Rightarrow> nat" where
  "split_rank members color key me =
     length [m \<leftarrow> split_group members color me. key m < key me \<or> (key m = key me \<and> m < me)]"

text \<open>\<open>comm.allgather(x)\<close>: every rank receives the list of all objects, in rank order.\<close>

definition allgather :: "'x comm \<Rightarrow> 'x \<Rightarrow> 'x list" where
  "allgather c x = lower c @ x # upper c"




section \<open>The forward collectors\<close>

definition naive_collect_forward_input ::
  "'a ndarray \<Rightarrow> 'a ndarray comm \<Rightarrow> int \<Rightarrow> error + 'a ndarray"
where
  "naive_collect_forward_input x mp_comm mp_size =
     (let gathered = allgather mp_comm x
      in np_concatenate gathered)"

definition naive_collect_forward_output ::
  "'a ndarray \<Rightarrow> 'a ndarray comm \<Rightarrow> int \<Rightarrow> error + 'a ndarray"
where
  "naive_collect_forward_output out mp_comm mp_size =
     (let gathered = allgather mp_comm out
      in np_concatenate gathered)"



section \<open>The backward collectors\<close>

definition naive_collect_backward_output ::
  "'a ndarray \<Rightarrow> int \<Rightarrow> int \<Rightarrow> error + 'a ndarray"
where
  "naive_collect_backward_output output_grad mp_group_idx mp_size =
     (case np_split output_grad mp_size of
        Inl e \<Rightarrow> Inl e
      | Inr parts \<Rightarrow> py_index parts mp_group_idx)"






section \<open>The gradient reducer\<close>


section \<open>Column blocks\<close>

text \<open>
  The specification speaks of a tensor whose columns are split into equal blocks. Block \<open>i\<close>
  of width \<open>w\<close> of \<open>T\<close> has the rows of \<open>T\<close>, and its element \<open>(r, c)\<close> is the element
  \<open>(r, i * w + c)\<close> of \<open>T\<close>. This is stated by position, independently of how \<open>np.split\<close>
  cuts an array.
\<close>

definition col_block :: "'a ndarray \<Rightarrow> nat \<Rightarrow> nat \<Rightarrow> 'a ndarray" where
  "col_block T i w =
     \<lparr>nrows = nrows T,
      ncols = w,
      data = map (\<lambda>k. at T (k div w) (i * w + k mod w)) [0..<nrows T * w]\<rparr>"

section \<open>Properties of the rank grid\<close>

lemma get_info_Inr:
  assumes "mp_size \<noteq> 0"
    and "Split comm (rank div mp_size) rank = Inr g1"
    and "Split comm (rank mod mp_size) rank = Inr g2"
  shows "get_info comm rank mp_size dp_size is_fc1 is_megatron_mp in_dim out_dim =
           Inr \<lparr>r_mp_idx = rank mod mp_size, r_dp_idx = rank div mp_size,
                r_mp_comm = g1, r_dp_comm = g2,
                r_part_in_dim = (if \<not> is_fc1 \<and> is_megatron_mp then in_dim div mp_size else in_dim),
                r_part_out_dim = (if \<not> is_fc1 \<and> is_megatron_mp then out_dim else out_dim div mp_size)\<rparr>"
  using assms by (simp add: get_info_def Let_def)

lemma get_info_ok:
  assumes "mp_size \<noteq> 0" and "\<forall>color key. \<exists>g. Split comm color key = Inr g"
  shows "\<exists>g1 g2. get_info comm rank mp_size dp_size is_fc1 is_megatron_mp in_dim out_dim =
           Inr \<lparr>r_mp_idx = rank mod mp_size, r_dp_idx = rank div mp_size,
                r_mp_comm = g1, r_dp_comm = g2,
                r_part_in_dim = (if \<not> is_fc1 \<and> is_megatron_mp then in_dim div mp_size else in_dim),
                r_part_out_dim = (if \<not> is_fc1 \<and> is_megatron_mp then out_dim else out_dim div mp_size)\<rparr>"
proof -
  obtain g1 where g1: "Split comm (rank div mp_size) rank = Inr g1"
    using assms(2) by blast
  obtain g2 where g2: "Split comm (rank mod mp_size) rank = Inr g2"
    using assms(2) by blast
  show ?thesis
    using get_info_Inr [OF assms(1) g1 g2] by blast
qed

lemma int_div_less_grid:
  fixes r m d :: int
  assumes "0 < m" and "r < m * d"
  shows "r div m < d"
proof (rule ccontr)
  assume "\<not> r div m < d"
  then have "d \<le> r div m" by simp
  then have "m * d \<le> m * (r div m)"
    using assms(1) by (simp add: mult_left_mono)
  also have "m * (r div m) \<le> r"
  proof -
    have "m * (r div m) + r mod m = r" by simp
    moreover have "0 \<le> r mod m" using assms(1) by simp
    ultimately show ?thesis by linarith
  qed
  finally show False using assms(2) by simp
qed

lemma grid_bounds:
  fixes rank :: int
  assumes "1 \<le> mp_size" "0 \<le> rank" "rank < mp_size * dp_size"
  shows "0 \<le> rank mod mp_size" "rank mod mp_size < mp_size"
    "0 \<le> rank div mp_size" "rank div mp_size < dp_size"
    "rank div mp_size * mp_size + rank mod mp_size = rank"
proof -
  have pos: "0 < mp_size" using assms(1) by simp
  show "0 \<le> rank mod mp_size" using pos by simp
  show "rank mod mp_size < mp_size" using pos by simp
  show "0 \<le> rank div mp_size" using pos assms(2) by (simp add: pos_imp_zdiv_nonneg_iff)
  show "rank div mp_size < dp_size"
    using pos assms(3) by (rule int_div_less_grid)
  show "rank div mp_size * mp_size + rank mod mp_size = rank" by simp
qed

text \<open>
  C9. For a grid of \<open>mp_size \<ge> 1\<close> by \<open>dp_size \<ge> 1\<close> ranks and a rank of the grid,
  \<open>get_info\<close> returns (when the communicator splits succeed) \<open>mp_idx = rank mod mp_size\<close>
  and \<open>dp_idx = rank div mp_size\<close>, both inside the grid; \<open>dp_idx * mp_size + mp_idx\<close> is the
  rank again; and two ranks of the grid with the same pair of indices are the same rank.
\<close>

theorem rank_grid_round_trip:
  assumes "1 \<le> mp_size" and "1 \<le> dp_size"
    and "0 \<le> rank" and "rank < mp_size * dp_size"
    and "0 \<le> rank'" and "rank' < mp_size * dp_size"
    and "\<forall>color key. \<exists>g. Split comm color key = Inr g"
  shows "\<exists>a. get_info comm rank mp_size dp_size is_fc1 is_megatron_mp in_dim out_dim = Inr a
            \<and> r_mp_idx a = rank mod mp_size \<and> r_dp_idx a = rank div mp_size
            \<and> 0 \<le> r_mp_idx a \<and> r_mp_idx a < mp_size
            \<and> 0 \<le> r_dp_idx a \<and> r_dp_idx a < dp_size
            \<and> r_dp_idx a * mp_size + r_mp_idx a = rank
            \<and> (\<forall>a'. get_info comm' rank' mp_size dp_size is_fc1' is_megatron_mp' in_dim' out_dim' = Inr a'
                      \<and> r_mp_idx a' = r_mp_idx a \<and> r_dp_idx a' = r_dp_idx a
                   \<longrightarrow> rank' = rank)"
proof -
  have nz: "mp_size \<noteq> 0" using assms(1) by simp
  obtain g1 g2 where a: "get_info comm rank mp_size dp_size is_fc1 is_megatron_mp in_dim out_dim =
           Inr \<lparr>r_mp_idx = rank mod mp_size, r_dp_idx = rank div mp_size,
                r_mp_comm = g1, r_dp_comm = g2,
                r_part_in_dim = (if \<not> is_fc1 \<and> is_megatron_mp then in_dim div mp_size else in_dim),
                r_part_out_dim = (if \<not> is_fc1 \<and> is_megatron_mp then out_dim else out_dim div mp_size)\<rparr>"
    using get_info_ok [OF nz assms(7)] by blast
  have inj: "rank' = rank"
    if "get_info comm' rank' mp_size dp_size is_fc1' is_megatron_mp' in_dim' out_dim' = Inr a'"
      and "r_mp_idx a' = rank mod mp_size" and "r_dp_idx a' = rank div mp_size" for a'
  proof -
    from that(1) have "r_mp_idx a' = rank' mod mp_size \<and> r_dp_idx a' = rank' div mp_size"
      using nz by (auto simp: get_info_def Let_def split: sum.splits if_splits)
    with that(2,3) have "rank' mod mp_size = rank mod mp_size" "rank' div mp_size = rank div mp_size"
      by simp_all
    then show ?thesis
      by (metis div_mult_mod_eq)
  qed
  show ?thesis
    using a grid_bounds [OF assms(1,3,4)] inj by auto
qed

theorem rank_grid_round_trip_witness:
  "\<exists>a. get_info \<lparr>Split = (\<lambda>c k. Inr (c, k))\<rparr> 5 2 3 True False 4 6 = Inr a
      \<and> r_mp_idx a = 1 \<and> r_dp_idx a = 2 \<and> r_dp_idx a * 2 + r_mp_idx a = 5"
  using rank_grid_round_trip [of 2 3 5 5 "\<lparr>Split = (\<lambda>c k. Inr (c, k))\<rparr>" True False 4 6]
  by auto

section \<open>Lists cut into segments of one width\<close>

lemma concat_segments:
  "concat (map (\<lambda>j. take w (drop (j * w) xs)) [0..<k]) = take (k * w) xs"
proof (induction k)
  case 0
  show ?case by simp
next
  case (Suc k)
  have "take (k * w) xs @ take w (drop (k * w) xs) = take (k * w + w) xs"
    by (simp add: take_add)
  with Suc show ?case by (simp add: add.commute)
qed

lemma segment_le:
  fixes r n w :: nat
  assumes "r < n"
  shows "r * w + w \<le> n * w"
proof -
  from assms have "Suc r \<le> n" by simp
  then have "Suc r * w \<le> n * w" by (rule mult_le_mono1)
  then show ?thesis by simp
qed

lemma length_concat_uniform:
  assumes "\<forall>i<n. length (f i) = w"
  shows "length (concat (map f [0..<n])) = n * w"
  using assms by (induction n) simp_all

lemma segment_concat_uniform:
  assumes "\<forall>i<n. length (f i) = w" and "r < n"
  shows "take w (drop (r * w) (concat (map f [0..<n]))) = f r"
  using assms
proof (induction n)
  case 0
  then show ?case by simp
next
  case (Suc n)
  have len: "length (concat (map f [0..<n])) = n * w"
    using Suc.prems(1) by (simp add: length_concat_uniform)
  show ?case
  proof (cases "r < n")
    case True
    have "r * w + w \<le> n * w" using True by (rule segment_le)
    then have "take w (drop (r * w) (concat (map f [0..<n]) @ f n))
                 = take w (drop (r * w) (concat (map f [0..<n])))"
      using len by simp
    with Suc True show ?thesis by simp
  next
    case False
    with Suc.prems(2) have "r = n" by simp
    then show ?thesis using len Suc.prems(1) by simp
  qed
qed

lemma nth_concat_uniform:
  assumes "\<forall>i<n. length (f i) = w" and "r < n" and "c < w"
  shows "concat (map f [0..<n]) ! (r * w + c) = f r ! c"
proof -
  have len: "length (concat (map f [0..<n])) = n * w"
    using assms(1) by (rule length_concat_uniform)
  have le: "r * w + w \<le> n * w" using assms(2) by (rule segment_le)
  have "f r ! c = take w (drop (r * w) (concat (map f [0..<n]))) ! c"
    using segment_concat_uniform [OF assms(1,2)] by simp
  also have "\<dots> = concat (map f [0..<n]) ! (r * w + c)"
  proof -
    have "r * w \<le> n * w" using le by linarith
    then have "r * w \<le> length (concat (map f [0..<n]))" using len by simp
    then show ?thesis using assms(3) by (simp add: nth_drop)
  qed
  finally show ?thesis by simp
qed

section \<open>The ranks of a model-parallel communicator\<close>

lemma length_filter_upt:
  "length (filter P [0..<n]) = card {m. m < n \<and> P m}"
proof -
  have "distinct (filter P [0..<n])" by simp
  then have "card (set (filter P [0..<n])) = length (filter P [0..<n])"
    by (rule distinct_card)
  then have "length (filter P [0..<n]) = card (set (filter P [0..<n]))"
    by simp
  also have "set (filter P [0..<n]) = {m. m < n \<and> P m}" by auto
  finally show ?thesis .
qed

lemma same_row_iff:
  fixes m r k :: nat
  assumes "0 < k"
  shows "m div k = r div k \<longleftrightarrow> r div k * k \<le> m \<and> m < r div k * k + k"
proof
  assume eq: "m div k = r div k"
  have "m div k * k + m mod k = m" by simp
  moreover have "m mod k < k" using assms by simp
  ultimately have "m div k * k \<le> m \<and> m < m div k * k + k" by linarith
  then show "r div k * k \<le> m \<and> m < r div k * k + k"
    by (simp only: eq)
next
  assume "r div k * k \<le> m \<and> m < r div k * k + k"
  then have "k * (r div k) \<le> m" "m < k * Suc (r div k)"
    by (simp_all add: mult.commute)
  then show "m div k = r div k"
    by (rule div_nat_eqI)
qed

text \<open>
  In a world of \<open>mp_size * dp_size\<close> processes that all call \<open>get_info\<close> with their own rank,
  the first split is by color \<open>rank div mp_size\<close> and key \<open>rank\<close>: the model-parallel
  communicator of a process has \<open>mp_size\<close> ranks, and the rank of the process in it is its
  \<open>mp_idx = rank mod mp_size\<close>. So rank \<open>i\<close> of a model-parallel communicator, of which the
  properties below speak, is the process of \<open>mp_idx = i\<close>.
\<close>

lemma mp_group_of_rank:
  fixes mp_size dp_size :: int
  assumes "1 \<le> mp_size" and "r < nat (mp_size * dp_size)"
  shows "split_rank [0..<nat (mp_size * dp_size)] (\<lambda>m. int m div mp_size) (\<lambda>m. int m) r
           = nat (int r mod mp_size)"
    and "length (split_group [0..<nat (mp_size * dp_size)] (\<lambda>m. int m div mp_size) r)
           = nat mp_size"
proof -
  define k where "k = nat mp_size"
  define N where "N = nat (mp_size * dp_size)"
  have k: "0 < k" "mp_size = int k" using assms(1) by (simp_all add: k_def)
  have color: "(int m div mp_size = int r div mp_size) = (m div k = r div k)" for m
    by (simp add: k(2) zdiv_int [symmetric])
  have "0 \<le> dp_size"
  proof (rule ccontr)
    assume "\<not> 0 \<le> dp_size"
    then have "mp_size * dp_size \<le> 0" using assms(1) by (simp add: mult_le_0_iff)
    with assms(2) show False by simp
  qed
  then have N: "N = k * nat dp_size"
    using assms(1) by (simp add: N_def k_def nat_mult_distrib)
  have "r < N" using assms(2) by (simp only: N_def)
  then have "r < nat dp_size * k"
    unfolding N by (simp add: mult.commute)
  then have "r div k < nat dp_size"
    by (rule less_mult_imp_div_less)
  then have "r div k * k + k \<le> nat dp_size * k" by (rule segment_le)
  then have row_inside: "r div k * k + k \<le> N" by (simp add: N mult.commute)
  have r_row: "r div k * k \<le> r" by simp
  have r_up: "r < r div k * k + k"
    using same_row_iff [OF k(1), of r r] by simp
  have before: "(int m < int r \<or> int m = int r \<and> m < r) = (m < r)" for m
    by auto
  have "split_rank [0..<N] (\<lambda>m. int m div mp_size) (\<lambda>m. int m) r
          = card {m. m < N \<and> m div k = r div k \<and> m < r}"
    by (simp only: split_rank_def split_group_def filter_filter color before length_filter_upt
        conj_assoc conj_commute [of "_ < r"])
  also have "{m. m < N \<and> m div k = r div k \<and> m < r} = {r div k * k..<r}"
  proof (rule set_eqI)
    fix m
    have "r < N" using assms(2) by (simp add: N_def)
    then show "m \<in> {m. m < N \<and> m div k = r div k \<and> m < r} \<longleftrightarrow> m \<in> {r div k * k..<r}"
      using same_row_iff [OF k(1), of m r] row_inside r_row r_up by auto
  qed
  also have "card {r div k * k..<r} = r mod k"
    by (simp add: minus_div_mult_eq_mod)
  also have "\<dots> = nat (int r mod mp_size)"
    by (simp add: k(2) zmod_int [symmetric])
  finally show "split_rank [0..<nat (mp_size * dp_size)] (\<lambda>m. int m div mp_size) (\<lambda>m. int m) r
           = nat (int r mod mp_size)"
    by (simp add: N_def)
  have "length (split_group [0..<N] (\<lambda>m. int m div mp_size) r)
          = card {m. m < N \<and> m div k = r div k}"
    by (simp add: split_group_def color length_filter_upt)
  also have "{m. m < N \<and> m div k = r div k} = {r div k * k..<r div k * k + k}"
  proof (rule set_eqI)
    fix m
    show "m \<in> {m. m < N \<and> m div k = r div k} \<longleftrightarrow> m \<in> {r div k * k..<r div k * k + k}"
      using same_row_iff [OF k(1), of m r] row_inside by auto
  qed
  also have "card {r div k * k..<r div k * k + k} = k" by simp
  finally show "length (split_group [0..<nat (mp_size * dp_size)] (\<lambda>m. int m div mp_size) r)
           = nat mp_size"
    by (simp add: N_def k_def)
qed

section \<open>Rows and column slices\<close>

lemma length_row:
  assumes "well_shaped A" and "r < nrows A"
  shows "length (row A r) = ncols A"
proof -
  have "r * ncols A + ncols A \<le> nrows A * ncols A"
    using assms(2) by (rule segment_le)
  then show ?thesis
    using assms(1) by (simp add: row_def well_shaped_def)
qed

lemma nth_row:
  assumes "well_shaped A" and "r < nrows A" and "c < ncols A"
  shows "row A r ! c = at A r c"
proof -
  have "r * ncols A + ncols A \<le> nrows A * ncols A"
    using assms(2) by (rule segment_le)
  then have "r * ncols A \<le> nrows A * ncols A" by linarith
  then have "r * ncols A \<le> length (data A)"
    using assms(1) by (simp add: well_shaped_def)
  then show ?thesis
    using assms(3) by (simp add: row_def at_def nth_drop)
qed

lemma concat_rows:
  assumes "well_shaped A"
  shows "concat (map (row A) [0..<nrows A]) = data A"
proof -
  have "concat (map (\<lambda>r. take (ncols A) (drop (r * ncols A) (data A))) [0..<nrows A])
          = take (nrows A * ncols A) (data A)"
    by (rule concat_segments)
  moreover have "row A = (\<lambda>r. take (ncols A) (drop (r * ncols A) (data A)))"
    by (rule ext) (simp add: row_def)
  ultimately show ?thesis
    using assms by (simp add: well_shaped_def)
qed

lemma well_shaped_col_slice:
  assumes "well_shaped A" and "en \<le> ncols A"
  shows "well_shaped (col_slice A st en)"
proof -
  have "\<forall>r<nrows A. length (take (en - st) (drop st (row A r))) = en - st"
    using assms by (auto simp: length_row)
  then have "length (concat (map (\<lambda>r. take (en - st) (drop st (row A r))) [0..<nrows A]))
               = nrows A * (en - st)"
    by (rule length_concat_uniform)
  then show ?thesis by (simp add: well_shaped_def col_slice_def)
qed

lemma row_col_slice:
  assumes "well_shaped A" and "en \<le> ncols A" and "r < nrows A"
  shows "row (col_slice A st en) r = take (en - st) (drop st (row A r))"
proof -
  have "\<forall>r<nrows A. length (take (en - st) (drop st (row A r))) = en - st"
    using assms(1,2) by (auto simp: length_row)
  then have "take (en - st) (drop (r * (en - st))
               (concat (map (\<lambda>r. take (en - st) (drop st (row A r))) [0..<nrows A])))
             = take (en - st) (drop st (row A r))"
    using assms(3) by (rule segment_concat_uniform)
  then show ?thesis by (simp add: row_def col_slice_def)
qed

lemma col_slice_eq_col_block:
  assumes "well_shaped T" and "(i + 1) * w \<le> ncols T"
  shows "col_slice T (i * w) ((i + 1) * w) = col_block T i w"
proof -
  let ?f = "\<lambda>r. take w (drop (i * w) (row T r))"
  have len: "\<forall>r<nrows T. length (?f r) = w"
    using assms by (auto simp: length_row)
  have L: "length (concat (map ?f [0..<nrows T])) = nrows T * w"
    using len by (rule length_concat_uniform)
  have "concat (map ?f [0..<nrows T]) = map (\<lambda>k. at T (k div w) (i * w + k mod w)) [0..<nrows T * w]"
  proof (rule nth_equalityI)
    show "length (concat (map ?f [0..<nrows T])) = length (map (\<lambda>k. at T (k div w) (i * w + k mod w)) [0..<nrows T * w])"
      by (simp only: L length_map length_upt minus_nat.diff_0)
  next
    fix k
    assume "k < length (concat (map ?f [0..<nrows T]))"
    then have k: "k < nrows T * w"
      by (simp only: L)
    then have w: "0 < w" by (cases w) simp_all
    have r: "k div w < nrows T"
      using k w by (simp add: less_mult_imp_div_less)
    have c: "k mod w < w" using w by simp
    have "concat (map ?f [0..<nrows T]) ! (k div w * w + k mod w) = ?f (k div w) ! (k mod w)"
      using len r c by (rule nth_concat_uniform)
    also have "\<dots> = row T (k div w) ! (i * w + k mod w)"
      using assms r c by (simp add: length_row)
    also have "\<dots> = at T (k div w) (i * w + k mod w)"
      using assms r c by (intro nth_row) simp_all
    finally show "concat (map ?f [0..<nrows T]) ! k = map (\<lambda>k. at T (k div w) (i * w + k mod w)) [0..<nrows T * w] ! k"
      using k by simp
  qed
  then show ?thesis
    by (simp add: col_slice_def col_block_def)
qed

section \<open>The naive strategy: gather and split\<close>

lemma view_rank_size:
  assumes "i < length xs"
  shows "Get_rank (view xs i) = i" and "Get_size (view xs i) = length xs"
  using assms by (simp_all add: Get_rank_def Get_size_def view_def)

lemma allgather_view:
  assumes "i < length xs"
  shows "allgather (view xs i) (xs ! i) = xs"
  using assms by (simp add: allgather_def view_def id_take_nth_drop [symmetric])

lemma block_le:
  fixes j k w :: nat
  assumes "j < k"
  shows "(j + 1) * w \<le> k * w"
  using segment_le [OF assms, of w] by simp

lemma row_col_block:
  assumes "well_shaped T" and "ncols T = k * w" and "j < k" and "r < nrows T"
  shows "row (col_block T j w) r = take w (drop (j * w) (row T r))"
proof -
  have le: "(j + 1) * w \<le> ncols T"
    using assms(2,3) by (simp only: block_le)
  have "row (col_slice T (j * w) ((j + 1) * w)) r
          = take ((j + 1) * w - j * w) (drop (j * w) (row T r))"
    using assms(1) le assms(4) by (rule row_col_slice)
  then show ?thesis
    using col_slice_eq_col_block [OF assms(1) le] by simp
qed

lemma np_concatenate_Inr:
  assumes "arrays \<noteq> []" and "\<forall>B\<in>set arrays. nrows B = n"
  shows "np_concatenate arrays =
           Inr \<lparr>nrows = n, ncols = sum_list (map ncols arrays),
                data = concat (map (\<lambda>r. concat (map (\<lambda>B. row B r) arrays)) [0..<n])\<rparr>"
proof (cases arrays)
  case Nil
  with assms(1) show ?thesis by simp
next
  case (Cons A rest)
  with assms(2) have "nrows A = n" and "list_all (\<lambda>B. nrows B = nrows A) arrays"
    by (simp_all add: list_all_iff)
  then show ?thesis
    by (simp add: np_concatenate_def Cons)
qed

lemma concat_col_blocks:
  assumes "well_shaped T" and "ncols T = k * w" and "0 < k"
  shows "np_concatenate (map (\<lambda>j. col_block T j w) [0..<k]) = Inr T"
proof -
  let ?blocks = "map (\<lambda>j. col_block T j w) [0..<k]"
  have ne: "?blocks \<noteq> []"
    using assms(3) by simp
  have rows: "\<forall>B\<in>set ?blocks. nrows B = nrows T"
    by (simp add: col_block_def)
  have width: "sum_list (map ncols ?blocks) = ncols T"
    using assms(2) by (simp add: col_block_def comp_def sum_list_triv)
  have "concat (map (\<lambda>B. row B r) ?blocks) = row T r" if "r < nrows T" for r
  proof -
    have eq: "map (\<lambda>j. row (col_block T j w) r) [0..<k]
            = map (\<lambda>j. take w (drop (j * w) (row T r))) [0..<k]"
    proof (rule map_cong)
      fix j assume "j \<in> set [0..<k]"
      then have "j < k" by simp
      with assms(1,2) show "row (col_block T j w) r = take w (drop (j * w) (row T r))"
        using that by (rule row_col_block)
    qed simp
    have "concat (map (\<lambda>B. row B r) ?blocks)
            = concat (map (\<lambda>j. row (col_block T j w) r) [0..<k])"
      by (simp add: comp_def)
    also have "\<dots> = concat (map (\<lambda>j. take w (drop (j * w) (row T r))) [0..<k])"
      by (simp only: eq)
    also have "\<dots> = take (k * w) (row T r)"
      by (rule concat_segments)
    also have "\<dots> = row T r"
      using assms(1,2) that by (simp add: length_row)
    finally show ?thesis .
  qed
  then have rows_eq: "map (\<lambda>r. concat (map (\<lambda>B. row B r) ?blocks)) [0..<nrows T] = map (row T) [0..<nrows T]"
    by (intro map_cong) simp_all
  have elems: "concat (map (\<lambda>r. concat (map (\<lambda>B. row B r) ?blocks)) [0..<nrows T]) = data T"
    by (simp only: rows_eq concat_rows [OF assms(1)])
  have "np_concatenate ?blocks =
          Inr \<lparr>nrows = nrows T, ncols = sum_list (map ncols ?blocks),
               data = concat (map (\<lambda>r. concat (map (\<lambda>B. row B r) ?blocks)) [0..<nrows T])\<rparr>"
    using ne rows by (rule np_concatenate_Inr)
  then show ?thesis
    by (simp only: width elems) simp
qed

lemma np_split_blocks:
  assumes "well_shaped T" and "ncols T = k * w" and "0 < k"
  shows "np_split T (int k) = Inr (map (\<lambda>j. col_block T j w) [0..<k])"
proof -
  have w: "ncols T div k = w" using assms(2,3) by simp
  have "int (ncols T) mod int k = 0"
    using assms(2) by (simp add: zmod_int [symmetric])
  then have "np_split T (int k) =
               Inr (map (\<lambda>j. col_slice T (j * w) ((j + 1) * w)) [0..<k])"
    using assms(3) w by (simp add: np_split_def Let_def)
  moreover have "map (\<lambda>j. col_slice T (j * w) ((j + 1) * w)) [0..<k]
                   = map (\<lambda>j. col_block T j w) [0..<k]"
  proof (rule map_cong)
    fix j assume "j \<in> set [0..<k]"
    then have "(j + 1) * w \<le> ncols T"
      using assms(2) by (simp only: block_le set_upt atLeastLessThan_iff)
    then show "col_slice T (j * w) ((j + 1) * w) = col_block T j w"
      using assms(1) by (simp only: col_slice_eq_col_block)
  qed simp
  ultimately show ?thesis by simp
qed

lemma py_index_nat:
  assumes "i < length xs"
  shows "py_index xs (int i) = Inr (xs ! i)"
  using assms by (simp add: py_index_def Let_def)

lemma exact_quotient:
  assumes "1 \<le> mp_size" and "int n mod mp_size = 0"
  shows "n = nat mp_size * (n div nat mp_size)"
proof -
  have "int n mod int (nat mp_size) = 0" using assms by simp
  then have "n mod nat mp_size = 0"
    by (simp only: zmod_int [symmetric] of_nat_eq_0_iff)
  then show ?thesis by auto
qed

text \<open>
  C1. A well-shaped tensor \<open>T\<close> whose columns split into \<open>mp_size \<ge> 1\<close> equal blocks, block
  \<open>j\<close> held by rank \<open>j\<close> of the model-parallel group: on every rank \<open>i\<close>,
  \<open>naive_collect_forward_output\<close> returns \<open>T\<close>, and \<open>naive_collect_backward_output\<close>
  applied to \<open>T\<close> and \<open>i\<close> returns block \<open>i\<close>, the tensor rank \<open>i\<close> passed to the forward
  collective.
\<close>

theorem naive_forward_backward_duality:
  assumes "well_shaped T" and "1 \<le> mp_size" and "int (ncols T) mod mp_size = 0"
    and "i < nat mp_size"
  shows "let w = ncols T div nat mp_size;
             blocks = map (\<lambda>j. col_block T j w) [0..<nat mp_size]
         in naive_collect_forward_output (blocks ! i) (view blocks i) mp_size = Inr T
            \<and> naive_collect_backward_output T (int i) mp_size = Inr (col_block T i w)"
proof -
  define k where "k = nat mp_size"
  define w where "w = ncols T div k"
  define blocks where "blocks = map (\<lambda>j. col_block T j w) [0..<k]"
  have k: "0 < k" "mp_size = int k" "i < k"
    using assms(2,4) by (simp_all add: k_def)
  have cols: "ncols T = k * w"
    using exact_quotient [OF assms(2,3)] by (simp add: k_def w_def)
  have i: "i < length blocks" using k by (simp add: blocks_def)
  have "naive_collect_forward_output (blocks ! i) (view blocks i) mp_size = np_concatenate blocks"
    using i by (simp add: naive_collect_forward_output_def allgather_view)
  also have "\<dots> = Inr T"
    unfolding blocks_def using assms(1) cols k(1) by (rule concat_col_blocks)
  finally have fwd: "naive_collect_forward_output (blocks ! i) (view blocks i) mp_size = Inr T" .
  have "np_split T mp_size = Inr blocks"
    unfolding blocks_def k(2) using assms(1) cols k(1) by (rule np_split_blocks)
  then have "naive_collect_backward_output T (int i) mp_size = Inr (blocks ! i)"
    using i by (simp add: naive_collect_backward_output_def py_index_nat)
  also have "blocks ! i = col_block T i w"
    using k(3) by (simp add: blocks_def)
  finally have bwd: "naive_collect_backward_output T (int i) mp_size = Inr (col_block T i w)" .
  show ?thesis
    using fwd bwd by (simp add: Let_def k_def [symmetric] w_def [symmetric] blocks_def [symmetric])
qed

theorem naive_forward_backward_duality_witness:
  "well_shaped \<lparr>nrows = 2, ncols = 4, data = [1, 2, 3, 4, 5, 6, 7, 8 :: int]\<rparr>
   \<and> naive_collect_forward_output \<lparr>nrows = 2, ncols = 2, data = [3, 4, 7, 8 :: int]\<rparr>
        \<lparr>lower = [\<lparr>nrows = 2, ncols = 2, data = [1, 2, 5, 6]\<rparr>], upper = []\<rparr> 2
       = Inr \<lparr>nrows = 2, ncols = 4, data = [1, 2, 3, 4, 5, 6, 7, 8]\<rparr>
   \<and> naive_collect_backward_output \<lparr>nrows = 2, ncols = 4, data = [1, 2, 3, 4, 5, 6, 7, 8 :: int]\<rparr> 1 2
       = Inr \<lparr>nrows = 2, ncols = 2, data = [3, 4, 7, 8]\<rparr>"
proof -
  let ?T = "\<lparr>nrows = 2, ncols = 4, data = [1, 2, 3, 4, 5, 6, 7, 8 :: int]\<rparr>"
  have ws: "well_shaped ?T" by (simp add: well_shaped_def)
  have b0: "col_block ?T 0 2 = \<lparr>nrows = 2, ncols = 2, data = [1, 2, 5, 6]\<rparr>"
    by code_simp
  have b1: "col_block ?T (Suc 0) 2 = \<lparr>nrows = 2, ncols = 2, data = [3, 4, 7, 8]\<rparr>"
    by code_simp
  have blocks: "map (\<lambda>j. col_block ?T j 2) [0..<2] = [col_block ?T 0 2, col_block ?T (Suc 0) 2]"
    by (simp add: upt_rec)
  show ?thesis
    using naive_forward_backward_duality [OF ws, of 2 1] ws
    by (simp add: Let_def blocks b0 b1 view_def)
qed

section \<open>The shard planner\<close>

text \<open>
  C4. The decision table of the shard planner. For \<open>in_dim\<close> and \<open>out_dim\<close> divisible by
  \<open>mp_size\<close>, \<open>get_info\<close> returns \<open>(in_dim, out_dim div mp_size)\<close> for the first layer
  whatever the strategy, \<open>(in_dim div mp_size, out_dim)\<close> for the second layer under Megatron,
  and \<open>(in_dim, out_dim div mp_size)\<close> for the second layer under the naive strategy. In each
  row one dimension is the quotient, and it times \<open>mp_size\<close> is the full dimension; the other
  dimension is the full one.
\<close>

theorem shard_planner_table:
  assumes "mp_size \<noteq> 0"
    and "in_dim mod mp_size = 0" and "out_dim mod mp_size = 0"
    and "\<forall>color key. \<exists>g. Split comm color key = Inr g"
  shows "\<exists>a. get_info comm rank mp_size dp_size is_fc1 is_megatron_mp in_dim out_dim = Inr a
            \<and> (is_fc1 \<longrightarrow>
                  r_part_in_dim a = in_dim \<and> r_part_out_dim a = out_dim div mp_size
                  \<and> r_part_out_dim a * mp_size = out_dim)
            \<and> (\<not> is_fc1 \<and> is_megatron_mp \<longrightarrow>
                  r_part_in_dim a = in_dim div mp_size \<and> r_part_out_dim a = out_dim
                  \<and> r_part_in_dim a * mp_size = in_dim)
            \<and> (\<not> is_fc1 \<and> \<not> is_megatron_mp \<longrightarrow>
                  r_part_in_dim a = in_dim \<and> r_part_out_dim a = out_dim div mp_size
                  \<and> r_part_out_dim a * mp_size = out_dim)"
proof -
  obtain g1 g2 where "get_info comm rank mp_size dp_size is_fc1 is_megatron_mp in_dim out_dim =
           Inr \<lparr>r_mp_idx = rank mod mp_size, r_dp_idx = rank div mp_size,
                r_mp_comm = g1, r_dp_comm = g2,
                r_part_in_dim = (if \<not> is_fc1 \<and> is_megatron_mp then in_dim div mp_size else in_dim),
                r_part_out_dim = (if \<not> is_fc1 \<and> is_megatron_mp then out_dim else out_dim div mp_size)\<rparr>"
    using get_info_ok [OF assms(1,4)] by blast
  moreover have "in_dim div mp_size * mp_size = in_dim" "out_dim div mp_size * mp_size = out_dim"
    using assms(2,3) by (simp_all add: mod_0_imp_dvd)
  ultimately show ?thesis by auto
qed

theorem shard_planner_table_witness:
  "\<exists>a. get_info \<lparr>Split = (\<lambda>c k. Inr (c, k))\<rparr> 3 2 2 False True 8 6 = Inr a
      \<and> r_part_in_dim a = 4 \<and> r_part_out_dim a = 6 \<and> r_part_in_dim a * 2 = 8"
  using shard_planner_table [of 2 8 6 "\<lparr>Split = (\<lambda>c k. Inr (c, k))\<rparr>" 3 2 False True]
  by auto

text \<open>
  C5. The specification asks for a fatal configuration error when \<open>mp_size\<close> does not divide
  \<open>in_dim\<close> or \<open>out_dim\<close>. \<open>get_info\<close> has no such check: for \<open>in_dim = 5\<close>, \<open>out_dim = 3\<close>
  and \<open>mp_size = 2\<close> it returns \<open>part_out_dim = 1\<close>.
\<close>

theorem get_info_divisibility_counterexample:
  "(5::int) mod 2 \<noteq> 0 \<and> (3::int) mod 2 \<noteq> 0
   \<and> get_info \<lparr>Split = (\<lambda>c k. Inr (c, k))\<rparr> 0 2 1 True False 5 3
       = Inr \<lparr>r_mp_idx = 0, r_dp_idx = 0, r_mp_comm = (0, 0), r_dp_comm = (0, 0),
              r_part_in_dim = 5, r_part_out_dim = 1\<rparr>"
  by (simp add: get_info_def)

text \<open>
  C5, as the code has it. \<open>get_info\<close> raises \<open>ZeroDivisionError\<close> for \<open>mp_size = 0\<close>, and
  for every other \<open>mp_size\<close> it returns (when the communicator splits succeed), whether or not
  \<open>mp_size\<close> divides the dimensions: the split dimension is the floor quotient, so that it
  times \<open>mp_size\<close> is the full dimension less the remainder; the other dimension is the full
  one.
\<close>

theorem get_info_floor_division:
  assumes "\<forall>color key. \<exists>g. Split comm color key = Inr g"
  shows "(mp_size = 0 \<longrightarrow>
            get_info comm rank mp_size dp_size is_fc1 is_megatron_mp in_dim out_dim
              = Inl ZeroDivisionError)
       \<and> (mp_size \<noteq> 0 \<longrightarrow>
            (\<exists>a. get_info comm rank mp_size dp_size is_fc1 is_megatron_mp in_dim out_dim = Inr a
               \<and> (if \<not> is_fc1 \<and> is_megatron_mp
                   then r_part_in_dim a = in_dim div mp_size
                        \<and> r_part_in_dim a * mp_size = in_dim - in_dim mod mp_size
                        \<and> r_part_out_dim a = out_dim
                   else r_part_out_dim a = out_dim div mp_size
                        \<and> r_part_out_dim a * mp_size = out_dim - out_dim mod mp_size
                        \<and> r_part_in_dim a = in_dim)))"
proof (intro conjI impI)
  assume "mp_size = 0"
  then show "get_info comm rank mp_size dp_size is_fc1 is_megatron_mp in_dim out_dim
              = Inl ZeroDivisionError"
    by (simp add: get_info_def)
next
  assume nz: "mp_size \<noteq> 0"
  obtain g1 g2 where "get_info comm rank mp_size dp_size is_fc1 is_megatron_mp in_dim out_dim =
           Inr \<lparr>r_mp_idx = rank mod mp_size, r_dp_idx = rank div mp_size,
                r_mp_comm = g1, r_dp_comm = g2,
                r_part_in_dim = (if \<not> is_fc1 \<and> is_megatron_mp then in_dim div mp_size else in_dim),
                r_part_out_dim = (if \<not> is_fc1 \<and> is_megatron_mp then out_dim else out_dim div mp_size)\<rparr>"
    using get_info_ok [OF nz assms] by blast
  moreover have "in_dim div mp_size * mp_size = in_dim - in_dim mod mp_size"
    "out_dim div mp_size * mp_size = out_dim - out_dim mod mp_size"
    by (simp_all add: minus_mod_eq_div_mult)
  ultimately show "\<exists>a. get_info comm rank mp_size dp_size is_fc1 is_megatron_mp in_dim out_dim = Inr a
               \<and> (if \<not> is_fc1 \<and> is_megatron_mp
                   then r_part_in_dim a = in_dim div mp_size
                        \<and> r_part_in_dim a * mp_size = in_dim - in_dim mod mp_size
                        \<and> r_part_out_dim a = out_dim
                   else r_part_out_dim a = out_dim div mp_size
                        \<and> r_part_out_dim a * mp_size = out_dim - out_dim mod mp_size
                        \<and> r_part_in_dim a = in_dim)"
    by auto
qed

theorem get_info_floor_division_witness:
  "get_info \<lparr>Split = (\<lambda>c k. Inr (c, k))\<rparr> 0 0 1 True False 5 3 = Inl ZeroDivisionError
   \<and> (\<exists>a. get_info \<lparr>Split = (\<lambda>c k. Inr (c, k))\<rparr> 1 2 1 False True 5 3 = Inr a
          \<and> r_part_in_dim a = 2 \<and> r_part_in_dim a * 2 = 4 \<and> r_part_out_dim a = 3)"
  using get_info_floor_division [of "\<lparr>Split = (\<lambda>c k. Inr (c, k))\<rparr>" 0 0 1 True False 5 3]
    get_info_floor_division [of "\<lparr>Split = (\<lambda>c k. Inr (c, k))\<rparr>" 2 1 1 False True 5 3]
  by auto

section \<open>The data shards\<close>

lemma py_slice_nonneg:
  assumes "0 \<le> start" and "start \<le> stop"
  shows "py_slice xs start stop = take (nat (stop - start)) (drop (nat start) xs)"
proof (cases "start < int (length xs)")
  case True
  show ?thesis
  proof (cases "stop \<le> int (length xs)")
    case True
    with assms \<open>start < int (length xs)\<close> show ?thesis
      by (simp add: py_slice_def Let_def min_def)
  next
    case False
    then have "min stop (int (length xs)) = int (length xs)" by simp
    moreover have "length (drop (nat start) xs) \<le> nat (stop - start)"
      using False assms by simp
    ultimately show ?thesis
      using assms True by (simp add: py_slice_def Let_def min_def nat_diff_distrib)
  qed
next
  case False
  with assms show ?thesis
    by (simp add: py_slice_def Let_def min_def)
qed

lemma split_data_Inr:
  assumes "1 \<le> mp_size" and "1 \<le> dp_size" and "0 \<le> rank"
  shows "split_data x y mp_size dp_size rank =
           Inr (take (length x div nat dp_size)
                  (drop (nat (rank div mp_size) * (length x div nat dp_size)) x),
                take (length x div nat dp_size)
                  (drop (nat (rank div mp_size) * (length x div nat dp_size)) y))"
proof -
  define chunk where "chunk = length x div nat dp_size"
  define d where "d = nat (rank div mp_size)"
  have d: "rank div mp_size = int d"
    using assms(1,3) by (simp add: d_def pos_imp_zdiv_nonneg_iff)
  have "int (length x) div dp_size = int (length x) div int (nat dp_size)"
    using assms(2) by simp
  also have "\<dots> = int chunk"
    by (simp only: chunk_def zdiv_int)
  finally have chunk: "int (length x) div dp_size = int chunk" .
  have slice: "py_slice zs (int d * int chunk) (int d * int chunk + int chunk)
                 = take chunk (drop (d * chunk) zs)" for zs :: "'z list"
  proof -
    have "nat (int d * int chunk) = d * chunk"
      by (simp add: nat_mult_distrib)
    then show ?thesis
      by (subst py_slice_nonneg) simp_all
  qed
  have "split_data x y mp_size dp_size rank =
          Inr (take chunk (drop (d * chunk) x), take chunk (drop (d * chunk) y))"
    using assms(1,2) by (simp add: split_data_def Let_def d chunk slice)
  then show ?thesis by (simp add: chunk_def d_def)
qed

lemma nat_div_grid:
  assumes "1 \<le> mp_size" and "0 \<le> rank" and "rank < mp_size * dp_size"
  shows "nat (rank div mp_size) < nat dp_size"
proof -
  have "0 \<le> rank div mp_size" "rank div mp_size < dp_size"
    using grid_bounds [OF assms] by simp_all
  then show ?thesis by simp
qed

lemma shard_rows:
  fixes x :: "'x list"
  assumes "d < n" and "chunk = length x div n"
  shows "length (take chunk (drop (d * chunk) x)) = chunk"
    and "\<forall>j<chunk. take chunk (drop (d * chunk) x) ! j = x ! (d * chunk + j)"
proof -
  have le: "d * chunk + chunk \<le> n * chunk" using assms(1) by (rule segment_le)
  have len: "n * chunk \<le> length x" by (simp add: assms(2))
  from le len show "length (take chunk (drop (d * chunk) x)) = chunk" by simp
  from le len have "d * chunk \<le> length x" by linarith
  then show "\<forall>j<chunk. take chunk (drop (d * chunk) x) ! j = x ! (d * chunk + j)"
    by (simp add: nth_drop)
qed

lemma shard_positions_inj:
  fixes d d' j j' chunk :: nat
  assumes "d * chunk + j = d' * chunk + j'" and "j < chunk" and "j' < chunk"
  shows "d = d' \<and> j = j'"
proof -
  have "(d * chunk + j) div chunk = d" "(d' * chunk + j') div chunk = d'"
    using assms(2,3) by simp_all
  with assms(1) have "d = d'" by simp
  with assms(1) show ?thesis by simp
qed

text \<open>
  C7. For \<open>mp_size, dp_size \<ge> 1\<close> and a rank of the grid, with
  \<open>dp_index = rank div mp_size\<close> and \<open>chunk = length x div dp_size\<close>: \<open>split_data\<close> returns
  the \<open>chunk\<close> rows of \<open>x\<close> from position \<open>dp_index * chunk\<close> on, and the elements of \<open>y\<close>
  at the same positions. The shard of \<open>x\<close> has exactly \<open>chunk\<close> rows, row \<open>j\<close> of it being row
  \<open>dp_index * chunk + j\<close> of \<open>x\<close>; different (shard, row) pairs are different positions of
  \<open>x\<close>, so the shards are disjoint; the shards of \<open>dp_index = 0, 1, \<dots>, dp_size - 1\<close>, one
  after the other, are the first \<open>dp_size * chunk\<close> rows of \<open>x\<close> in their order (likewise for
  \<open>y\<close>); and ranks with the same \<open>dp_index\<close> receive the same result.
\<close>

theorem split_data_shards:
  assumes "1 \<le> mp_size" and "1 \<le> dp_size" and "0 \<le> rank" and "rank < mp_size * dp_size"
  shows "let chunk = length x div nat dp_size;
             dp_index = nat (rank div mp_size);
             shard = (\<lambda>d. projr (split_data x y mp_size dp_size (int d * mp_size)))
         in split_data x y mp_size dp_size rank =
              Inr (take chunk (drop (dp_index * chunk) x), take chunk (drop (dp_index * chunk) y))
          \<and> dp_index < nat dp_size
          \<and> length (take chunk (drop (dp_index * chunk) x)) = chunk
          \<and> (\<forall>j<chunk. take chunk (drop (dp_index * chunk) x) ! j = x ! (dp_index * chunk + j))
          \<and> (\<forall>d d' j j'. d * chunk + j = d' * chunk + j' \<and> j < chunk \<and> j' < chunk
                 \<longrightarrow> d = d' \<and> j = j')
          \<and> concat (map (\<lambda>d. fst (shard d)) [0..<nat dp_size]) = take (nat dp_size * chunk) x
          \<and> concat (map (\<lambda>d. snd (shard d)) [0..<nat dp_size]) = take (nat dp_size * chunk) y
          \<and> (\<forall>rank'. 0 \<le> rank' \<and> rank' div mp_size = rank div mp_size
                 \<longrightarrow> split_data x y mp_size dp_size rank' = split_data x y mp_size dp_size rank)"
proof -
  define chunk where "chunk = length x div nat dp_size"
  define dp_index where "dp_index = nat (rank div mp_size)"
  define shard where "shard = (\<lambda>d. projr (split_data x y mp_size dp_size (int d * mp_size)))"
  have here: "split_data x y mp_size dp_size rank =
                Inr (take chunk (drop (dp_index * chunk) x), take chunk (drop (dp_index * chunk) y))"
    unfolding chunk_def dp_index_def using assms(1,2,3) by (rule split_data_Inr)
  have inside: "dp_index < nat dp_size"
    unfolding dp_index_def using assms(1,3,4) by (rule nat_div_grid)
  have rows: "length (take chunk (drop (dp_index * chunk) x)) = chunk"
    "\<forall>j<chunk. take chunk (drop (dp_index * chunk) x) ! j = x ! (dp_index * chunk + j)"
    using shard_rows [OF inside chunk_def] by simp_all
  have inj: "\<forall>d d' j j'. d * chunk + j = d' * chunk + j' \<and> j < chunk \<and> j' < chunk
                 \<longrightarrow> d = d' \<and> j = j'"
    using shard_positions_inj by blast
  have shard: "shard d = (take chunk (drop (d * chunk) x), take chunk (drop (d * chunk) y))" for d
  proof -
    have "0 \<le> int d * mp_size" using assms(1) by simp
    moreover have "int d * mp_size div mp_size = int d" using assms(1) by simp
    ultimately show ?thesis
      using split_data_Inr [OF assms(1,2), of "int d * mp_size" x y]
      by (simp add: shard_def chunk_def)
  qed
  have union_x: "concat (map (\<lambda>d. fst (shard d)) [0..<nat dp_size]) = take (nat dp_size * chunk) x"
    by (simp only: shard fst_conv concat_segments)
  have union_y: "concat (map (\<lambda>d. snd (shard d)) [0..<nat dp_size]) = take (nat dp_size * chunk) y"
    by (simp only: shard snd_conv concat_segments)
  have indep: "\<forall>rank'. 0 \<le> rank' \<and> rank' div mp_size = rank div mp_size
                 \<longrightarrow> split_data x y mp_size dp_size rank' = split_data x y mp_size dp_size rank"
  proof (intro allI impI)
    fix rank' assume r: "0 \<le> rank' \<and> rank' div mp_size = rank div mp_size"
    then have "split_data x y mp_size dp_size rank' =
                 Inr (take chunk (drop (dp_index * chunk) x), take chunk (drop (dp_index * chunk) y))"
      using split_data_Inr [OF assms(1,2), of rank' x y] by (simp add: chunk_def dp_index_def)
    with here show "split_data x y mp_size dp_size rank' = split_data x y mp_size dp_size rank"
      by simp
  qed
  show ?thesis
    unfolding Let_def chunk_def [symmetric] dp_index_def [symmetric] shard_def [symmetric]
    using here inside rows inj union_x union_y indep by (intro conjI)
qed

theorem split_data_shards_witness:
  "split_data [10, 11, 12, 13, 14, 15, 16 :: nat] [0, 1, 2, 3, 4, 5, 6 :: nat] 2 3 5
     = Inr ([14, 15], [4, 5])
   \<and> split_data [10, 11, 12, 13, 14, 15, 16 :: nat] [0, 1, 2, 3, 4, 5, 6 :: nat] 2 3 4
     = split_data [10, 11, 12, 13, 14, 15, 16 :: nat] [0, 1, 2, 3, 4, 5, 6 :: nat] 2 3 5"
proof -
  have "(1::int) \<le> 2" "(1::int) \<le> 3" "(0::int) \<le> 5" "(5::int) < 2 * 3" by simp_all
  from split_data_shards [OF this, of "[10, 11, 12, 13, 14, 15, 16 :: nat]" "[0, 1, 2, 3, 4, 5, 6 :: nat]"]
  have "split_data [10, 11, 12, 13, 14, 15, 16 :: nat] [0, 1, 2, 3, 4, 5, 6 :: nat] 2 3 5
          = Inr ([14, 15], [4, 5])"
    and "\<forall>rank'. 0 \<le> rank' \<and> rank' div 2 = (5::int) div 2
           \<longrightarrow> split_data [10, 11, 12, 13, 14, 15, 16 :: nat] [0, 1, 2, 3, 4, 5, 6 :: nat] 2 3 rank'
               = split_data [10, 11, 12, 13, 14, 15, 16 :: nat] [0, 1, 2, 3, 4, 5, 6 :: nat] 2 3 5"
    by (simp_all add: Let_def)
  then show ?thesis by simp
qed

text \<open>
  C10. A rank outside the grid (\<open>rank div mp_size \<ge> dp_size\<close>) does not always receive an
  empty or truncated shard. With 11 rows and \<open>dp_size = 4\<close> the chunk is 2 and 3 rows remain
  after the four shards of the grid; rank 4 (\<open>mp_size = 1\<close>) receives rows 8 and 9: a shard of
  full length, neither empty nor truncated.
\<close>

theorem split_data_outside_grid_counterexample:
  "(4::int) \<le> 4 div 1
   \<and> split_data [0, 1, 2, 3, 4, 5, 6, 7, 8, 9, 10 :: nat] [0, 1, 2, 3, 4, 5, 6, 7, 8, 9, 10 :: nat] 1 4 4
       = Inr ([8, 9], [8, 9])
   \<and> length [8, 9 :: nat] = length [0, 1, 2, 3, 4, 5, 6, 7, 8, 9, 10 :: nat] div 4"
proof -
  have "(1::int) \<le> 1" "(1::int) \<le> 4" "(0::int) \<le> 4" by simp_all
  from split_data_Inr [OF this, of "[0, 1, 2, 3, 4, 5, 6, 7, 8, 9, 10 :: nat]"
      "[0, 1, 2, 3, 4, 5, 6, 7, 8, 9, 10 :: nat]"]
  show ?thesis by simp
qed

text \<open>
  C10, as the code has it. For \<open>mp_size, dp_size \<ge> 1\<close> and \<open>rank div mp_size \<ge> dp_size\<close>,
  \<open>split_data\<close> raises nothing and returns the slice from \<open>dp_index * chunk\<close> of length
  \<open>chunk\<close>, cut at the end of \<open>x\<close>: it has \<open>min chunk (length x - dp_index * chunk)\<close> rows,
  at most the \<open>length x mod dp_size\<close> rows the grid's shards leave over, none when
  \<open>dp_index * chunk\<close> is past the end; and every row of it lies beyond the first
  \<open>dp_size * chunk\<close> rows, which the grid's shards cover.
\<close>

theorem split_data_outside_grid:
  assumes "1 \<le> mp_size" and "1 \<le> dp_size" and "dp_size \<le> rank div mp_size"
  shows "let chunk = length x div nat dp_size;
             dp_index = nat (rank div mp_size);
             x_shard = take chunk (drop (dp_index * chunk) x)
         in split_data x y mp_size dp_size rank =
              Inr (x_shard, take chunk (drop (dp_index * chunk) y))
          \<and> length x_shard = min chunk (length x - dp_index * chunk)
          \<and> length x_shard \<le> length x mod nat dp_size
          \<and> (length x \<le> dp_index * chunk \<longrightarrow> x_shard = [])
          \<and> (\<forall>j<length x_shard. x_shard ! j = x ! (dp_index * chunk + j)
                                  \<and> nat dp_size * chunk \<le> dp_index * chunk + j)"
proof -
  define chunk where "chunk = length x div nat dp_size"
  define dp_index where "dp_index = nat (rank div mp_size)"
  define x_shard where "x_shard = take chunk (drop (dp_index * chunk) x)"
  have "0 \<le> rank div mp_size" using assms(2,3) by linarith
  then have rank: "0 \<le> rank"
    using assms(1) by (simp add: pos_imp_zdiv_nonneg_iff)
  have here: "split_data x y mp_size dp_size rank =
                Inr (x_shard, take chunk (drop (dp_index * chunk) y))"
    unfolding x_shard_def chunk_def dp_index_def using assms(1,2) rank by (rule split_data_Inr)
  have outside: "nat dp_size \<le> dp_index"
    using assms(3) by (simp add: dp_index_def nat_mono)
  then have beyond: "nat dp_size * chunk \<le> dp_index * chunk"
    by (rule mult_le_mono1)
  have len: "length x_shard = min chunk (length x - dp_index * chunk)"
    by (simp add: x_shard_def)
  have "length x = nat dp_size * chunk + length x mod nat dp_size"
    by (simp add: chunk_def)
  with beyond have "length x - dp_index * chunk \<le> length x mod nat dp_size"
    by linarith
  with len have rem: "length x_shard \<le> length x mod nat dp_size" by simp
  have empty: "length x \<le> dp_index * chunk \<longrightarrow> x_shard = []"
    by (simp add: x_shard_def)
  have rows: "\<forall>j<length x_shard. x_shard ! j = x ! (dp_index * chunk + j)
                                  \<and> nat dp_size * chunk \<le> dp_index * chunk + j"
  proof (intro allI impI conjI)
    fix j assume j: "j < length x_shard"
    then have "0 < length x - dp_index * chunk" using len by linarith
    then have "dp_index * chunk \<le> length x" by linarith
    with j show "x_shard ! j = x ! (dp_index * chunk + j)"
      by (simp add: x_shard_def nth_drop)
    show "nat dp_size * chunk \<le> dp_index * chunk + j"
      using beyond by linarith
  qed
  show ?thesis
    unfolding Let_def chunk_def [symmetric] dp_index_def [symmetric] x_shard_def [symmetric]
    using here len rem empty rows by (intro conjI)
qed

theorem split_data_outside_grid_witness:
  "split_data [0, 1, 2, 3, 4, 5, 6 :: nat] [0, 1, 2, 3, 4, 5, 6 :: nat] 1 2 2 = Inr ([6], [6])
   \<and> length [6 :: nat] \<le> length [0, 1, 2, 3, 4, 5, 6 :: nat] mod 2"
proof -
  have "(1::int) \<le> 1" "(1::int) \<le> 2" "(2::int) \<le> 2 div 1" by simp_all
  from split_data_outside_grid [OF this, of "[0, 1, 2, 3, 4, 5, 6 :: nat]" "[0, 1, 2, 3, 4, 5, 6 :: nat]"]
  show ?thesis by (simp add: Let_def)
qed

section \<open>The naive forward collectors make no layout check\<close>

lemma allgather_ne: "allgather c x \<noteq> []"
  by (simp add: allgather_def)

lemma np_concatenate_rows_differ:
  assumes "A \<in> set arrays" and "B \<in> set arrays" and "nrows A \<noteq> nrows B"
  shows "np_concatenate arrays = Inl ValueError"
proof (cases arrays)
  case Nil
  then show ?thesis by (simp add: np_concatenate_def)
next
  case (Cons H rest)
  have "\<not> list_all (\<lambda>C. nrows C = nrows H) arrays"
  proof
    assume "list_all (\<lambda>C. nrows C = nrows H) arrays"
    then have "nrows A = nrows H" "nrows B = nrows H"
      using assms(1,2) by (simp_all add: list_all_iff)
    with assms(3) show False by simp
  qed
  then show ?thesis
    by (simp add: np_concatenate_def Cons)
qed

text \<open>
  C6. The specification asks for a \<open>LayoutMismatchError\<close>, raised by a shape check before the
  collective, when the width of the local tensor is not the shard planner's \<open>part_out_dim\<close>.
  The naive forward collectives have no such check, and do not receive the expected width: for
  \<open>out_dim = 4\<close> and \<open>mp_size = 2\<close> the planner gives \<open>part_out_dim = 2\<close>, and a rank passing
  a tensor of width 3 receives the concatenation, of width 5.
\<close>

theorem naive_forward_no_width_check_counterexample:
  "get_info \<lparr>Split = (\<lambda>c k. Inr (c, k))\<rparr> 0 2 1 True False 4 4
     = Inr \<lparr>r_mp_idx = 0, r_dp_idx = 0, r_mp_comm = (0, 0), r_dp_comm = (0, 0),
            r_part_in_dim = 4, r_part_out_dim = 2\<rparr>
   \<and> ncols \<lparr>nrows = 1, ncols = 3, data = [1, 2, 3 :: int]\<rparr> \<noteq> 2
   \<and> naive_collect_forward_output \<lparr>nrows = 1, ncols = 3, data = [1, 2, 3 :: int]\<rparr>
         \<lparr>lower = [], upper = [\<lparr>nrows = 1, ncols = 2, data = [4, 5]\<rparr>]\<rparr> 2
       = Inr \<lparr>nrows = 1, ncols = 5, data = [1, 2, 3, 4, 5]\<rparr>
   \<and> naive_collect_forward_input \<lparr>nrows = 1, ncols = 3, data = [1, 2, 3 :: int]\<rparr>
         \<lparr>lower = [], upper = [\<lparr>nrows = 1, ncols = 2, data = [4, 5]\<rparr>]\<rparr> 2
       = Inr \<lparr>nrows = 1, ncols = 5, data = [1, 2, 3, 4, 5]\<rparr>"
  by (simp add: get_info_def naive_collect_forward_output_def naive_collect_forward_input_def
      allgather_def np_concatenate_def row_def)

text \<open>
  C6, as the code has it. \<open>naive_collect_forward_input\<close> and \<open>naive_collect_forward_output\<close>
  are the same function, with no check of the widths: when all tensors of the group have as
  many rows as the caller's, the call returns a tensor of that many rows whose width is the
  sum of the widths of the group's tensors, whatever they are; the only error is the
  \<open>ValueError\<close> of \<open>np.concatenate\<close> when a tensor of the group has another number of rows.
\<close>

theorem naive_forward_no_width_check:
  "naive_collect_forward_input x mp_comm mp_size = naive_collect_forward_output x mp_comm mp_size
   \<and> ((\<forall>B\<in>set (lower mp_comm @ upper mp_comm). nrows B = nrows x) \<longrightarrow>
        (\<exists>R. naive_collect_forward_output x mp_comm mp_size = Inr R
           \<and> nrows R = nrows x
           \<and> ncols R = sum_list (map ncols (lower mp_comm)) + ncols x
                          + sum_list (map ncols (upper mp_comm))))
   \<and> (\<not> (\<forall>B\<in>set (lower mp_comm @ upper mp_comm). nrows B = nrows x) \<longrightarrow>
        naive_collect_forward_output x mp_comm mp_size = Inl ValueError)"
proof (intro conjI impI)
  show "naive_collect_forward_input x mp_comm mp_size = naive_collect_forward_output x mp_comm mp_size"
    by (simp add: naive_collect_forward_input_def naive_collect_forward_output_def)
next
  assume same: "\<forall>B\<in>set (lower mp_comm @ upper mp_comm). nrows B = nrows x"
  then have "\<forall>B\<in>set (allgather mp_comm x). nrows B = nrows x"
    by (auto simp: allgather_def)
  with allgather_ne have "np_concatenate (allgather mp_comm x) =
      Inr \<lparr>nrows = nrows x, ncols = sum_list (map ncols (allgather mp_comm x)),
           data = concat (map (\<lambda>r. concat (map (\<lambda>B. row B r) (allgather mp_comm x))) [0..<nrows x])\<rparr>"
    by (rule np_concatenate_Inr)
  then show "\<exists>R. naive_collect_forward_output x mp_comm mp_size = Inr R
           \<and> nrows R = nrows x
           \<and> ncols R = sum_list (map ncols (lower mp_comm)) + ncols x
                          + sum_list (map ncols (upper mp_comm))"
    by (simp add: naive_collect_forward_output_def) (simp add: allgather_def)
next
  assume "\<not> (\<forall>B\<in>set (lower mp_comm @ upper mp_comm). nrows B = nrows x)"
  then obtain B where "B \<in> set (lower mp_comm @ upper mp_comm)" and B: "nrows B \<noteq> nrows x"
    by blast
  then have "B \<in> set (allgather mp_comm x)" "x \<in> set (allgather mp_comm x)"
    by (auto simp: allgather_def)
  then have "np_concatenate (allgather mp_comm x) = Inl ValueError"
    using B by (rule np_concatenate_rows_differ)
  then show "naive_collect_forward_output x mp_comm mp_size = Inl ValueError"
    by (simp add: naive_collect_forward_output_def)
qed

theorem naive_forward_no_width_check_witness:
  "(\<exists>R. naive_collect_forward_output \<lparr>nrows = 1, ncols = 3, data = [1, 2, 3 :: int]\<rparr>
         \<lparr>lower = [], upper = [\<lparr>nrows = 1, ncols = 2, data = [4, 5]\<rparr>]\<rparr> 2 = Inr R
       \<and> nrows R = 1 \<and> ncols R = 5)
   \<and> naive_collect_forward_output \<lparr>nrows = 1, ncols = 3, data = [1, 2, 3 :: int]\<rparr>
         \<lparr>lower = [], upper = [\<lparr>nrows = 2, ncols = 2, data = [4, 5, 6, 7]\<rparr>]\<rparr> 2 = Inl ValueError"
  using naive_forward_no_width_check [of "\<lparr>nrows = 1, ncols = 3, data = [1, 2, 3 :: int]\<rparr>"
      "\<lparr>lower = [], upper = [\<lparr>nrows = 1, ncols = 2, data = [4, 5]\<rparr>]\<rparr>" 2]
    naive_forward_no_width_check [of "\<lparr>nrows = 1, ncols = 3, data = [1, 2, 3 :: int]\<rparr>"
      "\<lparr>lower = [], upper = [\<lparr>nrows = 2, ncols = 2, data = [4, 5, 6, 7]\<rparr>]\<rparr>" 2]
  by simp

section \<open>Sum reductions: the Megatron collectors and the gradient reducer\<close>













section \<open>The naive backward collector of the input gradient\<close>











end
